theory Spec2Isabelle
  imports Main "HOL-Library.Word"
begin

section \<open>Data model of pkg/webhooks/admission/jobs/validate/util.go\<close>

text \<open>
  \<^verbatim>\<open>batchv1alpha1.Event\<close> and \<^verbatim>\<open>batchv1alpha1.Action\<close> are Go string types, an
  \<^verbatim>\<open>int32\<close> is a 32-bit word (the code only compares exit codes for equality), a nilable
  pointer is an option, a slice is a list, the Go set idiom \<^verbatim>\<open>map[K]struct{}\<close> is a set
  (\<^verbatim>\<open>len\<close> is \<open>card\<close>), and \<^verbatim>\<open>map[K]bool\<close> is a partial map.
\<close>

type_synonym Event = string
type_synonym Action = string
type_synonym int32 = "32 word"

text \<open>The field path is only handed on to \<^verbatim>\<open>field.Invalid\<close>: its elements from the root.\<close>

type_synonym Path = "string list"

record LifecyclePolicy =
  Action :: Action
  Event :: Event
  Events :: "Event list"
  ExitCode :: "int32 option"

text \<open>
  Of a \<^verbatim>\<open>VolumeSpec\<close> the validator reads the mount path, the claim name and whether the
  pointer to the inline claim template is nil; the template itself is opaque (\<open>'c\<close>).
\<close>

record 'c VolumeSpec =
  MountPath :: string
  VolumeClaimName :: string
  VolumeClaim :: "'c option"

subsection \<open>Event and action names\<close>

text \<open>
  Modelled from the spec: the string values of the constants of package
  \<^verbatim>\<open>batchv1alpha1\<close> (\<^verbatim>\<open>AnyEvent\<close>, \<^verbatim>\<open>PodFailedEvent\<close>, ...), which are declared outside
  util.go. The spec names the events "Any", "PodFailed", "PodEvicted", "JobUnknown",
  "TaskCompleted" and the internal-only "OutOfSync", "CommandIssued", and the actions
  "AbortJob", "RestartJob", "RestartTask", "TerminateJob", "CompleteJob", "ResumeJob" and the
  internal-only "SyncJob", "Enqueue".
\<close>

definition AnyEvent :: Event where "AnyEvent = ''Any''"
definition PodFailedEvent :: Event where "PodFailedEvent = ''PodFailed''"
definition PodEvictedEvent :: Event where "PodEvictedEvent = ''PodEvicted''"
definition JobUnknownEvent :: Event where "JobUnknownEvent = ''JobUnknown''"
definition TaskCompletedEvent :: Event where "TaskCompletedEvent = ''TaskCompleted''"
definition OutOfSyncEvent :: Event where "OutOfSyncEvent = ''OutOfSync''"
definition CommandIssuedEvent :: Event where "CommandIssuedEvent = ''CommandIssued''"

definition AbortJobAction :: Action where "AbortJobAction = ''AbortJob''"
definition RestartJobAction :: Action where "RestartJobAction = ''RestartJob''"
definition RestartTaskAction :: Action where "RestartTaskAction = ''RestartTask''"
definition TerminateJobAction :: Action where "TerminateJobAction = ''TerminateJob''"
definition CompleteJobAction :: Action where "CompleteJobAction = ''CompleteJob''"
definition ResumeJobAction :: Action where "ResumeJobAction = ''ResumeJob''"
definition SyncJobAction :: Action where "SyncJobAction = ''SyncJob''"
definition EnqueueAction :: Action where "EnqueueAction = ''Enqueue''"

subsection \<open>The allow-lists\<close>

text \<open>policyEventMap defines all policy events and whether to allow external use.\<close>

definition policyEventMap :: "Event \<rightharpoonup> bool" where
  "policyEventMap = map_of
     [(AnyEvent, True),
      (PodFailedEvent, True),
      (PodEvictedEvent, True),
      (JobUnknownEvent, True),
      (TaskCompletedEvent, True),
      (OutOfSyncEvent, False),
      (CommandIssuedEvent, False)]"

text \<open>policyActionMap defines all policy actions and whether to allow external use.\<close>

definition policyActionMap :: "Action \<rightharpoonup> bool" where
  "policyActionMap = map_of
     [(AbortJobAction, True),
      (RestartJobAction, True),
      (RestartTaskAction, True),
      (TerminateJobAction, True),
      (CompleteJobAction, True),
      (ResumeJobAction, True),
      (SyncJobAction, False),
      (EnqueueAction, False)]"

section \<open>Errors\<close>

text \<open>
  One constructor for each error the policy validator builds, with the values its message is
  formatted from:
  \<^item> \<open>EventAndExitCode\<close>: "must not specify event and exitCode simultaneously";
  \<^item> \<open>NoEventNoExitCode\<close>: "either event and exitCode should be specified";
  \<^item> \<open>InvalidPolicyEvent\<close>: \<^verbatim>\<open>field.Invalid(fldPath, event, "invalid policy event")\<close>;
  \<^item> \<open>InvalidPolicyAction\<close>: \<^verbatim>\<open>field.Invalid(fldPath, policy.Action, "invalid policy action")\<close>;
  \<^item> \<open>DuplicateEvent\<close>: "duplicate event %v  across different policy";
  \<^item> \<open>ZeroExitCode\<close>: "0 is not a valid error code";
  \<^item> \<open>DuplicateExitCode\<close>: "duplicate exitCode %v";
  \<^item> \<open>WildcardWithOthers\<close>: "if there's * here, no other policy should be here".
\<close>

datatype policyError =
    EventAndExitCode
  | NoEventNoExitCode
  | InvalidPolicyEvent Path Event
  | InvalidPolicyAction Path Action
  | DuplicateEvent Event
  | ZeroExitCode
  | DuplicateExitCode int32
  | WildcardWithOthers

text \<open>
  The \<^verbatim>\<open>error\<close> of validatePolicies is nil (\<open>None\<close>) or a \<^verbatim>\<open>*multierror.Error\<close> holding the
  appended errors in order. \<^verbatim>\<open>multierror.Append\<close> on nil makes a new container.
\<close>

type_synonym multierror = "policyError list option"

fun multierror_Append :: "multierror \<Rightarrow> policyError \<Rightarrow> multierror" where
  "multierror_Append None e = Some [e]"
| "multierror_Append (Some es) e = Some (es @ [e])"

text \<open>Dereferencing a nil pointer panics.\<close>

datatype panic = NilPointerDereference

section \<open>getEventList and removeDuplicates\<close>

text \<open>The loop of removeDuplicates over \<^verbatim>\<open>EventList\<close>, with its locals \<^verbatim>\<open>keys\<close> and \<^verbatim>\<open>list\<close>.\<close>

fun removeDuplicates_loop :: "Event list \<Rightarrow> (Event \<rightharpoonup> bool) \<Rightarrow> Event list \<Rightarrow> Event list" where
  "removeDuplicates_loop [] keys list = list"
| "removeDuplicates_loop (val # rest) keys list =
     (if keys val = None
      then removeDuplicates_loop rest (keys(val \<mapsto> True)) (list @ [val])
      else removeDuplicates_loop rest keys list)"

definition removeDuplicates :: "Event list \<Rightarrow> Event list" where
  "removeDuplicates EventList = removeDuplicates_loop EventList Map.empty []"

definition getEventList :: "LifecyclePolicy \<Rightarrow> Event list" where
  "getEventList policy =
     (let policyEventsList = Events policy;
          policyEventsList = (if length (Event policy) > 0
                              then policyEventsList @ [Event policy]
                              else policyEventsList)
      in removeDuplicates policyEventsList)"

section \<open>validatePolicies\<close>

text \<open>The variables the loop of validatePolicies updates.\<close>

record vstate =
  err :: multierror
  policyEvents :: "Event set"
  exitCodes :: "int32 set"

text \<open>
  The inner loop over the merged event list of one policy. It returns \<^verbatim>\<open>bFlag\<close> and the
  updated variables; every \<^verbatim>\<open>break\<close> ends the recursion.
\<close>

fun eventLoop :: "Path \<Rightarrow> Action \<Rightarrow> Event list \<Rightarrow> vstate \<Rightarrow> bool \<times> vstate" where
  "eventLoop fldPath action [] s = (False, s)"
| "eventLoop fldPath action (event # rest) s =
     (if policyEventMap event = None \<or> policyEventMap event = Some False
      then (True, s\<lparr>err := multierror_Append (err s) (InvalidPolicyEvent fldPath event)\<rparr>)
      else if policyActionMap action = None \<or> policyActionMap action = Some False
      then (True, s\<lparr>err := multierror_Append (err s) (InvalidPolicyAction fldPath action)\<rparr>)
      else if event \<in> policyEvents s
      then (True, s\<lparr>err := multierror_Append (err s) (DuplicateEvent event)\<rparr>)
      else eventLoop fldPath action rest (s\<lparr>policyEvents := insert event (policyEvents s)\<rparr>))"

text \<open>
  The loop over the policies. \<open>Inr\<close> carries the variables when the loop ends, by exhaustion
  or by \<^verbatim>\<open>break\<close>; \<open>Inl\<close> is the panic of \<^verbatim>\<open>*policy.ExitCode\<close> on a nil pointer.
\<close>

fun policyLoop :: "Path \<Rightarrow> LifecyclePolicy list \<Rightarrow> vstate \<Rightarrow> panic + vstate" where
  "policyLoop fldPath [] s = Inr s"
| "policyLoop fldPath (policy # rest) s =
     (if (Event policy \<noteq> '''' \<or> length (Events policy) \<noteq> 0) \<and> ExitCode policy \<noteq> None
      then Inr (s\<lparr>err := multierror_Append (err s) EventAndExitCode\<rparr>)
      else if Event policy = '''' \<and> length (Events policy) = 0 \<and> ExitCode policy = None
      then Inr (s\<lparr>err := multierror_Append (err s) NoEventNoExitCode\<rparr>)
      else if length (Event policy) \<noteq> 0 \<or> length (Events policy) \<noteq> 0
      then (case eventLoop fldPath (Action policy) (getEventList policy) s of
              (bFlag, s') \<Rightarrow> if bFlag = True then Inr s' else policyLoop fldPath rest s')
      else (case ExitCode policy of
              None \<Rightarrow> Inl NilPointerDereference
            | Some code \<Rightarrow>
                if code = 0
                then Inr (s\<lparr>err := multierror_Append (err s) ZeroExitCode\<rparr>)
                else if code \<in> exitCodes s
                then Inr (s\<lparr>err := multierror_Append (err s) (DuplicateExitCode code)\<rparr>)
                else policyLoop fldPath rest (s\<lparr>exitCodes := insert code (exitCodes s)\<rparr>)))"

text \<open>The variables before the loop: \<^verbatim>\<open>err\<close> nil and both sets empty.\<close>

definition initial :: vstate where
  "initial = \<lparr>err = None, policyEvents = {}, exitCodes = {}\<rparr>"

text \<open>The cross-check for the wildcard event after the loop.\<close>

definition wildcardCheck :: "vstate \<Rightarrow> multierror" where
  "wildcardCheck s =
     (if AnyEvent \<in> policyEvents s \<and> card (policyEvents s) > 1
      then multierror_Append (err s) WildcardWithOthers
      else err s)"

definition validatePolicies :: "LifecyclePolicy list \<Rightarrow> Path \<Rightarrow> panic + multierror" where
  "validatePolicies policies fldPath =
     (case policyLoop fldPath policies initial of
        Inl p \<Rightarrow> Inl p
      | Inr s \<Rightarrow> Inr (wildcardCheck s))"

section \<open>validateIO\<close>

text \<open>
  The errors of validateIO: " mountPath is required;", " duplicated mountPath: %s;",
  " either VolumeClaim or VolumeClaimName must be specified;", the conflict of a claim name
  with an inline claim, and "invalid VolumeClaimName %s : %v" with the name and the messages
  of the name check.
\<close>

datatype ioError =
    MountPathRequired
  | DuplicatedMountPath string
  | ClaimOrNameRequired
  | ClaimConflict
  | InvalidVolumeClaimName string "string list"

text \<open>
  \<^verbatim>\<open>validation.ValidatePersistentVolumeName\<close> belongs to Kubernetes; it is the parameter
  \<open>ValidatePersistentVolumeName\<close>, from the name and the prefix flag to the list of messages.
\<close>

fun validateIO_loop ::
  "(string \<Rightarrow> bool \<Rightarrow> string list) \<Rightarrow> 'c VolumeSpec list \<Rightarrow> (string \<rightharpoonup> bool) \<Rightarrow> ioError option" where
  "validateIO_loop ValidatePersistentVolumeName [] volumeMap = None"
| "validateIO_loop ValidatePersistentVolumeName (volume # rest) volumeMap =
     (if length (MountPath volume) = 0
      then Some MountPathRequired
      else if volumeMap (MountPath volume) \<noteq> None
      then Some (DuplicatedMountPath (MountPath volume))
      else if VolumeClaim volume = None \<and> VolumeClaimName volume = ''''
      then Some ClaimOrNameRequired
      else if length (VolumeClaimName volume) \<noteq> 0 \<and> VolumeClaim volume \<noteq> None
      then Some ClaimConflict
      else if length (VolumeClaimName volume) \<noteq> 0
              \<and> length (ValidatePersistentVolumeName (VolumeClaimName volume) False) > 0
      then Some (InvalidVolumeClaimName (VolumeClaimName volume)
                   (ValidatePersistentVolumeName (VolumeClaimName volume) False))
      else validateIO_loop ValidatePersistentVolumeName rest (volumeMap(MountPath volume \<mapsto> True)))"

definition validateIO ::
  "(string \<Rightarrow> bool \<Rightarrow> string list) \<Rightarrow> 'c VolumeSpec list \<Rightarrow> ioError option" where
  "validateIO ValidatePersistentVolumeName volumes =
     validateIO_loop ValidatePersistentVolumeName volumes Map.empty"

section \<open>The properties the validators are checked against\<close>

subsection \<open>Policies\<close>

text \<open>
  A policy carries an event specification when its single event or its event list is set;
  the events it cites are the entries of the list followed by the single event.
\<close>

definition hasEvents :: "LifecyclePolicy \<Rightarrow> bool" where
  "hasEvents p = (Event p \<noteq> '''' \<or> Events p \<noteq> [])"

definition citedEvents :: "LifecyclePolicy \<Rightarrow> Event list" where
  "citedEvents p = Events p @ (if Event p = '''' then [] else [Event p])"

text \<open>An event or action is allowed when it is a key of its allow-list with flag true.\<close>

definition eventAllowed :: "Event \<Rightarrow> bool" where
  "eventAllowed e = (policyEventMap e = Some True)"

definition actionAllowed :: "Action \<Rightarrow> bool" where
  "actionAllowed a = (policyActionMap a = Some True)"

text \<open>
  Removing duplicates from a list, keeping the first occurrence of every element and the
  order of the elements kept.
\<close>

fun first_occurrences :: "'a list \<Rightarrow> 'a list" where
  "first_occurrences [] = []"
| "first_occurrences (x # xs) = x # first_occurrences (filter (\<lambda>y. y \<noteq> x) xs)"

text \<open>
  The events \<open>es\<close> of a policy with action \<open>a\<close> go through the inner loop without a
  violation when the events seen so far are \<open>X\<close>.
\<close>

definition eventsPass :: "Action \<Rightarrow> Event list \<Rightarrow> Event set \<Rightarrow> bool" where
  "eventsPass a es X =
     ((\<forall>e\<in>set es. eventAllowed e \<and> e \<notin> X) \<and> distinct es \<and> (es \<noteq> [] \<longrightarrow> actionAllowed a))"

text \<open>
  One policy goes through the body of the outer loop without a violation, when the events
  seen so far are \<open>X\<close> and the exit codes seen so far are \<open>C\<close>; it then records its events
  and its exit code.
\<close>

definition policyOK :: "LifecyclePolicy \<Rightarrow> Event set \<Rightarrow> int32 set \<Rightarrow> bool" where
  "policyOK p X C =
     ((hasEvents p \<longleftrightarrow> ExitCode p = None)
      \<and> (\<forall>e\<in>set (citedEvents p). eventAllowed e \<and> e \<notin> X)
      \<and> (hasEvents p \<longrightarrow> actionAllowed (Action p))
      \<and> (case ExitCode p of None \<Rightarrow> True | Some c \<Rightarrow> c \<noteq> 0 \<and> c \<notin> C))"

definition recordPolicy :: "LifecyclePolicy \<Rightarrow> vstate \<Rightarrow> vstate" where
  "recordPolicy p s =
     s\<lparr>policyEvents := policyEvents s \<union> set (citedEvents p),
       exitCodes := exitCodes s \<union> set_option (ExitCode p)\<rparr>"

fun passes :: "LifecyclePolicy list \<Rightarrow> Event set \<Rightarrow> int32 set \<Rightarrow> bool" where
  "passes [] X C = True"
| "passes (p # ps) X C =
     (policyOK p X C \<and> passes ps (X \<union> set (citedEvents p)) (C \<union> set_option (ExitCode p)))"

fun recordAll :: "LifecyclePolicy list \<Rightarrow> vstate \<Rightarrow> vstate" where
  "recordAll [] s = s"
| "recordAll (p # ps) s = recordAll ps (recordPolicy p s)"

text \<open>
  The conditions under which validatePolicies returns nil, one by one: every policy sets
  exactly one of event specification and exit code; every cited event is allowed; the action
  of every policy with an event specification is allowed; no event is cited by two different
  policies; every exit code is non-zero and no two policies have the same one; the wildcard
  event is not recorded together with another event.
\<close>

definition exactlyOneTrigger :: "LifecyclePolicy list \<Rightarrow> bool" where
  "exactlyOneTrigger ps = (\<forall>p\<in>set ps. hasEvents p \<noteq> (ExitCode p \<noteq> None))"

definition eventsAllowed :: "LifecyclePolicy list \<Rightarrow> bool" where
  "eventsAllowed ps = (\<forall>p\<in>set ps. \<forall>e\<in>set (citedEvents p). eventAllowed e)"

definition eventActionsAllowed :: "LifecyclePolicy list \<Rightarrow> bool" where
  "eventActionsAllowed ps = (\<forall>p\<in>set ps. hasEvents p \<longrightarrow> actionAllowed (Action p))"

fun noSharedEvent :: "LifecyclePolicy list \<Rightarrow> bool" where
  "noSharedEvent [] = True"
| "noSharedEvent (p # ps) =
     ((\<forall>q\<in>set ps. set (citedEvents p) \<inter> set (citedEvents q) = {}) \<and> noSharedEvent ps)"

definition exitCodesOf :: "LifecyclePolicy list \<Rightarrow> int32 list" where
  "exitCodesOf ps = concat (map (\<lambda>p. case ExitCode p of None \<Rightarrow> [] | Some c \<Rightarrow> [c]) ps)"

definition exitCodesValid :: "LifecyclePolicy list \<Rightarrow> bool" where
  "exitCodesValid ps = (0 \<notin> set (exitCodesOf ps) \<and> distinct (exitCodesOf ps))"

definition recordedEvents :: "LifecyclePolicy list \<Rightarrow> Event set" where
  "recordedEvents ps = (\<Union>p\<in>set ps. set (citedEvents p))"

definition wildcardAlone :: "LifecyclePolicy list \<Rightarrow> bool" where
  "wildcardAlone ps =
     (\<not> (AnyEvent \<in> recordedEvents ps \<and> (\<exists>e\<in>recordedEvents ps. e \<noteq> AnyEvent)))"

text \<open>The conjunction of these conditions.\<close>

definition wellFormedPolicies :: "LifecyclePolicy list \<Rightarrow> bool" where
  "wellFormedPolicies ps =
     (exactlyOneTrigger ps \<and> eventsAllowed ps \<and> eventActionsAllowed ps \<and> noSharedEvent ps
      \<and> exitCodesValid ps \<and> wildcardAlone ps)"

subsection \<open>Volumes\<close>

text \<open>
  The claim of a volume is in order when exactly one of the inline claim and the claim name
  is set and, for a claim name, the name check returns no message. A volume list is valid
  when every mount path is non-empty, every claim is in order and no mount path repeats.
\<close>

definition claimOK :: "(string \<Rightarrow> bool \<Rightarrow> string list) \<Rightarrow> 'c VolumeSpec \<Rightarrow> bool" where
  "claimOK ValidatePersistentVolumeName v =
     ((VolumeClaim v \<noteq> None \<and> VolumeClaimName v = '''')
      \<or> (VolumeClaim v = None \<and> VolumeClaimName v \<noteq> ''''
          \<and> ValidatePersistentVolumeName (VolumeClaimName v) False = []))"

definition volumesValid :: "(string \<Rightarrow> bool \<Rightarrow> string list) \<Rightarrow> 'c VolumeSpec list \<Rightarrow> bool" where
  "volumesValid ValidatePersistentVolumeName vs =
     ((\<forall>v\<in>set vs. MountPath v \<noteq> '''' \<and> claimOK ValidatePersistentVolumeName v)
      \<and> distinct (map MountPath vs))"

text \<open>The mount paths the loop of validateIO has recorded after the volumes \<open>vs\<close>.\<close>

fun recordMounts :: "'c VolumeSpec list \<Rightarrow> (string \<rightharpoonup> bool) \<Rightarrow> (string \<rightharpoonup> bool)" where
  "recordMounts [] m = m"
| "recordMounts (v # vs) m = recordMounts vs (m(MountPath v \<mapsto> True))"

section \<open>Lemmas\<close>

lemma removeDuplicates_loop_eq:
  "removeDuplicates_loop xs keys list = list @ first_occurrences (filter (\<lambda>x. keys x = None) xs)"
proof (induction xs arbitrary: keys list)
  case Nil
  show ?case by simp
next
  case (Cons x xs)
  have eq: "(\<lambda>y. (keys(x \<mapsto> True)) y = None) = (\<lambda>y. y \<noteq> x \<and> keys y = None)"
    by auto
  show ?case
    by (simp add: Cons.IH eq conj_commute del: fun_upd_apply) 
qed

lemma multierror_Append_neq [simp]: "multierror_Append m e \<noteq> m"
  by (cases m) auto

lemma multierror_Append_neq' [simp]: "m \<noteq> multierror_Append m e"
  by (cases m) auto

lemma multierror_Append_not_None [simp]: "multierror_Append m e \<noteq> None"
  by (cases m) auto

lemma multierror_Append_inject [simp]:
  "multierror_Append m e = multierror_Append m e' \<longleftrightarrow> e = e'"
  by (cases m) auto

lemma not_allowed_iff: "(m x = None \<or> m x = Some False) \<longleftrightarrow> m x \<noteq> Some True"
  by (cases "m x") auto

lemma eventLoop_Cons:
  "eventLoop f a (e # es) s =
     (if \<not> eventAllowed e
      then (True, s\<lparr>err := multierror_Append (err s) (InvalidPolicyEvent f e)\<rparr>)
      else if \<not> actionAllowed a
      then (True, s\<lparr>err := multierror_Append (err s) (InvalidPolicyAction f a)\<rparr>)
      else if e \<in> policyEvents s
      then (True, s\<lparr>err := multierror_Append (err s) (DuplicateEvent e)\<rparr>)
      else eventLoop f a es (s\<lparr>policyEvents := insert e (policyEvents s)\<rparr>))"
  by (simp add: eventAllowed_def actionAllowed_def not_allowed_iff)

lemma eventLoop_append:
  "eventsPass a pre (policyEvents s) \<Longrightarrow>
   eventLoop f a (pre @ es) s = eventLoop f a es (s\<lparr>policyEvents := policyEvents s \<union> set pre\<rparr>)"
proof (induction pre arbitrary: s)
  case Nil
  show ?case by simp
next
  case (Cons e pre)
  let ?s = "s\<lparr>policyEvents := insert e (policyEvents s)\<rparr>"
  from Cons.prems have "eventsPass a pre (policyEvents ?s)"
    by (auto simp: eventsPass_def)
  from Cons.IH [OF this] Cons.prems show ?case
    by (simp add: eventLoop_Cons eventsPass_def del: eventLoop.simps)
qed

lemma eventLoop_pass:
  "eventsPass a es (policyEvents s) \<Longrightarrow>
   eventLoop f a es s = (False, s\<lparr>policyEvents := policyEvents s \<union> set es\<rparr>)"
  using eventLoop_append [of a es s f "[]"] by simp

lemma eventLoop_fail:
  "distinct es \<Longrightarrow> \<not> eventsPass a es (policyEvents s) \<Longrightarrow>
   \<exists>s' e. eventLoop f a es s = (True, s') \<and> err s' = multierror_Append (err s) e
      \<and> e \<noteq> WildcardWithOthers \<and> exitCodes s' = exitCodes s
      \<and> policyEvents s \<subseteq> policyEvents s' \<and> policyEvents s' \<subseteq> policyEvents s \<union> set es"
proof (induction es arbitrary: s)
  case Nil
  then show ?case by (simp add: eventsPass_def)
next
  case (Cons e es)
  show ?case
  proof (cases "eventAllowed e \<and> actionAllowed a \<and> e \<notin> policyEvents s")
    case True
    let ?s = "s\<lparr>policyEvents := insert e (policyEvents s)\<rparr>"
    from Cons.prems True have "distinct es" "\<not> eventsPass a es (policyEvents ?s)"
      by (auto simp: eventsPass_def)
    from Cons.IH [OF this] True show ?thesis
      by (simp add: eventLoop_Cons del: eventLoop.simps) blast
  next
    case False
    then show ?thesis
      by (auto simp: eventLoop_Cons simp del: eventLoop.simps)
  qed
qed

lemma set_first_occurrences [simp]: "set (first_occurrences xs) = set xs"
proof (induction xs rule: first_occurrences.induct)
  case 1
  show ?case by simp
next
  case (2 x xs)
  then show ?case by auto
qed

lemma distinct_first_occurrences [simp]: "distinct (first_occurrences xs)"
proof (induction xs rule: first_occurrences.induct)
  case 1
  show ?case by simp
next
  case (2 x xs)
  then show ?case by simp
qed

lemma first_occurrences_Nil_iff [simp]: "first_occurrences xs = [] \<longleftrightarrow> xs = []"
  by (cases xs) simp_all

lemma removeDuplicates_eq: "removeDuplicates xs = first_occurrences xs"
  by (simp add: removeDuplicates_def removeDuplicates_loop_eq)

lemma getEventList_eq: "getEventList p = first_occurrences (citedEvents p)"
  by (simp add: getEventList_def citedEvents_def removeDuplicates_eq Let_def)

lemma set_getEventList [simp]: "set (getEventList p) = set (citedEvents p)"
  by (simp add: getEventList_eq)

lemma citedEvents_Nil_iff: "citedEvents p = [] \<longleftrightarrow> \<not> hasEvents p"
  by (auto simp: citedEvents_def hasEvents_def)

lemma policyLoop_step_ok:
  assumes "policyOK p (policyEvents s) (exitCodes s)"
  shows "policyLoop f (p # ps) s = policyLoop f ps (recordPolicy p s)"
proof (cases "hasEvents p")
  case True
  with assms have x: "ExitCode p = None" and
    pass: "eventsPass (Action p) (getEventList p) (policyEvents s)"
    by (auto simp: policyOK_def eventsPass_def getEventList_eq)
  from True x show ?thesis
    by (auto simp: eventLoop_pass [OF pass] recordPolicy_def hasEvents_def)
next
  case False
  with assms obtain c where x: "ExitCode p = Some c" "c \<noteq> 0" "c \<notin> exitCodes s"
    by (auto simp: policyOK_def split: option.splits)
  from False have "citedEvents p = []" by (simp add: citedEvents_Nil_iff)
  with False x show ?thesis
    by (simp add: recordPolicy_def hasEvents_def)
qed

lemma policyLoop_step_fail:
  assumes "\<not> policyOK p (policyEvents s) (exitCodes s)"
  shows "\<exists>s' e. policyLoop f (p # ps) s = Inr s' \<and> err s' = multierror_Append (err s) e
           \<and> e \<noteq> WildcardWithOthers
           \<and> policyEvents s \<subseteq> policyEvents s'
           \<and> policyEvents s' \<subseteq> policyEvents s \<union> set (citedEvents p)"
proof (cases "hasEvents p")
  case True
  show ?thesis
  proof (cases "ExitCode p")
    case None
    with True assms have "\<not> eventsPass (Action p) (getEventList p) (policyEvents s)"
      by (auto simp: policyOK_def eventsPass_def getEventList_eq citedEvents_Nil_iff)
    from eventLoop_fail [OF _ this, of f] obtain s' e where
      "eventLoop f (Action p) (getEventList p) s = (True, s')"
      "err s' = multierror_Append (err s) e" "e \<noteq> WildcardWithOthers"
      "policyEvents s \<subseteq> policyEvents s'"
      "policyEvents s' \<subseteq> policyEvents s \<union> set (getEventList p)"
      by (auto simp: getEventList_eq)
    with True None show ?thesis
      by (auto simp: hasEvents_def intro: exI [of _ e])
  next
    case (Some c)
    with True show ?thesis
      by (auto simp: hasEvents_def)
  qed
next
  case False
  show ?thesis
  proof (cases "ExitCode p")
    case None
    with False show ?thesis by (simp add: hasEvents_def)
  next
    case (Some c)
    from False have "citedEvents p = []" by (simp add: citedEvents_Nil_iff)
    with False Some assms have "c = 0 \<or> c \<in> exitCodes s"
      by (auto simp: policyOK_def)
    with False Some show ?thesis
      by (auto simp: hasEvents_def)
  qed
qed

lemma recordPolicy_simps [simp]:
  "err (recordPolicy p s) = err s"
  "policyEvents (recordPolicy p s) = policyEvents s \<union> set (citedEvents p)"
  "exitCodes (recordPolicy p s) = exitCodes s \<union> set_option (ExitCode p)"
  by (simp_all add: recordPolicy_def)

lemma err_recordAll [simp]: "err (recordAll ps s) = err s"
  by (induction ps arbitrary: s) simp_all

lemma policyEvents_recordAll:
  "policyEvents (recordAll ps s) = policyEvents s \<union> (\<Union>p\<in>set ps. set (citedEvents p))"
  by (induction ps arbitrary: s) auto

lemma exitCodes_recordAll:
  "exitCodes (recordAll ps s) = exitCodes s \<union> (\<Union>p\<in>set ps. set_option (ExitCode p))"
  by (induction ps arbitrary: s) auto

lemma policyLoop_append:
  "passes qs (policyEvents s) (exitCodes s) \<Longrightarrow>
   policyLoop f (qs @ rs) s = policyLoop f rs (recordAll qs s)"
proof (induction qs arbitrary: s)
  case Nil
  show ?case by simp
next
  case (Cons q qs)
  then show ?case
    by (simp add: policyLoop_step_ok del: policyLoop.simps)
qed

lemma policyLoop_passes:
  "passes ps (policyEvents s) (exitCodes s) \<Longrightarrow> policyLoop f ps s = Inr (recordAll ps s)"
  using policyLoop_append [of ps s f "[]"] by simp

lemma policyLoop_not_passes:
  "\<not> passes ps (policyEvents s) (exitCodes s) \<Longrightarrow>
   \<exists>s' e. policyLoop f ps s = Inr s' \<and> err s' = multierror_Append (err s) e
      \<and> e \<noteq> WildcardWithOthers
      \<and> policyEvents s \<subseteq> policyEvents s'
      \<and> policyEvents s' \<subseteq> policyEvents s \<union> (\<Union>p\<in>set ps. set (citedEvents p))"
proof (induction ps arbitrary: s)
  case Nil
  then show ?case by simp
next
  case (Cons p ps)
  show ?case
  proof (cases "policyOK p (policyEvents s) (exitCodes s)")
    case True
    with Cons.prems have "\<not> passes ps (policyEvents (recordPolicy p s)) (exitCodes (recordPolicy p s))"
      by simp
    from Cons.IH [OF this] obtain s' e where
      "policyLoop f ps (recordPolicy p s) = Inr s'"
      "err s' = multierror_Append (err s) e" "e \<noteq> WildcardWithOthers"
      "policyEvents (recordPolicy p s) \<subseteq> policyEvents s'"
      "policyEvents s' \<subseteq> policyEvents (recordPolicy p s) \<union> (\<Union>p\<in>set ps. set (citedEvents p))"
      by auto
    with True show ?thesis
      by (simp add: policyLoop_step_ok del: policyLoop.simps) blast
  next
    case False
    from policyLoop_step_fail [OF this, of f ps] show ?thesis
      by (simp del: policyLoop.simps) blast
  qed
qed

lemma exitCodesOf_simps [simp]:
  "exitCodesOf [] = []"
  "exitCodesOf (p # ps) = (case ExitCode p of None \<Rightarrow> [] | Some c \<Rightarrow> [c]) @ exitCodesOf ps"
  by (simp_all add: exitCodesOf_def)

lemma recordedEvents_simps [simp]:
  "recordedEvents [] = {}"
  "recordedEvents (p # ps) = set (citedEvents p) \<union> recordedEvents ps"
  by (simp_all add: recordedEvents_def)

lemma set_exitCodesOf: "set (exitCodesOf ps) = (\<Union>p\<in>set ps. set_option (ExitCode p))"
  by (induction ps) (auto split: option.splits)

lemma finite_recordedEvents [simp]: "finite (recordedEvents ps)"
  by (simp add: recordedEvents_def)

lemma passes_iff:
  "passes ps X C \<longleftrightarrow>
     exactlyOneTrigger ps \<and> eventsAllowed ps \<and> eventActionsAllowed ps \<and> noSharedEvent ps
     \<and> recordedEvents ps \<inter> X = {}
     \<and> exitCodesValid ps \<and> set (exitCodesOf ps) \<inter> C = {}"
proof (induction ps arbitrary: X C)
  case Nil
  show ?case
    by (simp add: exactlyOneTrigger_def eventsAllowed_def eventActionsAllowed_def
        exitCodesValid_def)
next
  case (Cons p ps)
  have one: "exactlyOneTrigger (p # ps) \<longleftrightarrow> (hasEvents p \<longleftrightarrow> ExitCode p = None) \<and> exactlyOneTrigger ps"
    by (auto simp: exactlyOneTrigger_def)
  have ev: "eventsAllowed (p # ps) \<longleftrightarrow> (\<forall>e\<in>set (citedEvents p). eventAllowed e) \<and> eventsAllowed ps"
    by (auto simp: eventsAllowed_def)
  have act: "eventActionsAllowed (p # ps) \<longleftrightarrow>
      (hasEvents p \<longrightarrow> actionAllowed (Action p)) \<and> eventActionsAllowed ps"
    by (auto simp: eventActionsAllowed_def)
  have shared: "noSharedEvent (p # ps) \<and> recordedEvents (p # ps) \<inter> X = {} \<longleftrightarrow>
      (\<forall>e\<in>set (citedEvents p). e \<notin> X) \<and> noSharedEvent ps
      \<and> recordedEvents ps \<inter> (X \<union> set (citedEvents p)) = {}"
    by (auto simp: recordedEvents_def)
  have codes: "exitCodesValid (p # ps) \<and> set (exitCodesOf (p # ps)) \<inter> C = {} \<longleftrightarrow>
      (case ExitCode p of None \<Rightarrow> True | Some c \<Rightarrow> c \<noteq> 0 \<and> c \<notin> C) \<and> exitCodesValid ps
      \<and> set (exitCodesOf ps) \<inter> (C \<union> set_option (ExitCode p)) = {}"
    by (cases "ExitCode p") (auto simp: exitCodesValid_def)
  have "passes (p # ps) X C \<longleftrightarrow>
      policyOK p X C \<and> passes ps (X \<union> set (citedEvents p)) (C \<union> set_option (ExitCode p))"
    by simp
  also have "\<dots> \<longleftrightarrow> exactlyOneTrigger (p # ps) \<and> eventsAllowed (p # ps)
       \<and> eventActionsAllowed (p # ps)
       \<and> (noSharedEvent (p # ps) \<and> recordedEvents (p # ps) \<inter> X = {})
       \<and> (exitCodesValid (p # ps) \<and> set (exitCodesOf (p # ps)) \<inter> C = {})"
    unfolding Cons.IH one ev act shared codes policyOK_def by blast
  finally show ?case by blast
qed

lemma card_gt_1_iff_other:
  assumes "finite R" "x \<in> R"
  shows "1 < card R \<longleftrightarrow> (\<exists>e\<in>R. e \<noteq> x)"
proof
  assume gt: "1 < card R"
  show "\<exists>e\<in>R. e \<noteq> x"
  proof (rule ccontr)
    assume "\<not> (\<exists>e\<in>R. e \<noteq> x)"
    with assms(2) have "R = {x}" by blast
    with gt show False by simp
  qed
next
  assume "\<exists>e\<in>R. e \<noteq> x"
  then obtain e where e: "e \<in> R" "e \<noteq> x" by blast
  with assms have "{x, e} \<subseteq> R" by blast
  with assms(1) have "card {x, e} \<le> card R" by (rule_tac card_mono)
  moreover from e have "card {x, e} = 2" by simp
  ultimately show "1 < card R" by linarith
qed

lemma initial_simps [simp]:
  "policyEvents initial = {}" "exitCodes initial = {}" "err initial = None"
  by (simp_all add: initial_def)

lemma policyEvents_recordAll_initial: "policyEvents (recordAll ps initial) = recordedEvents ps"
  by (simp add: policyEvents_recordAll recordedEvents_def)

lemma wildcardCheck_None_iff:
  "wildcardCheck s = None \<longleftrightarrow>
     err s = None \<and> \<not> (AnyEvent \<in> policyEvents s \<and> 1 < card (policyEvents s))"
  by (simp add: wildcardCheck_def)

lemma validatePolicies_nil_iff_passes:
  "validatePolicies ps f = Inr None \<longleftrightarrow> passes ps {} {} \<and> wildcardAlone ps"
proof (cases "passes ps {} {}")
  case True
  then have loop: "policyLoop f ps initial = Inr (recordAll ps initial)"
    by (simp add: policyLoop_passes)
  have "validatePolicies ps f = Inr None \<longleftrightarrow> wildcardCheck (recordAll ps initial) = None"
    by (simp add: validatePolicies_def loop)
  also have "\<dots> \<longleftrightarrow>
      \<not> (AnyEvent \<in> recordedEvents ps \<and> 1 < card (recordedEvents ps))"
    unfolding wildcardCheck_None_iff policyEvents_recordAll_initial by simp
  also have "\<dots> \<longleftrightarrow> wildcardAlone ps"
    unfolding wildcardAlone_def
    using card_gt_1_iff_other [of "recordedEvents ps" AnyEvent] by auto
  finally show ?thesis using True by simp
next
  case False
  then have "\<not> passes ps (policyEvents initial) (exitCodes initial)" by simp
  from policyLoop_not_passes [OF this, of f] obtain s' e where
    "policyLoop f ps initial = Inr s'" "err s' = multierror_Append None e"
    by auto
  with False show ?thesis
    by (simp add: validatePolicies_def wildcardCheck_def)
qed

lemma policyLoop_total: "\<exists>s'. policyLoop f ps s = Inr s'"
proof (cases "passes ps (policyEvents s) (exitCodes s)")
  case True
  then show ?thesis by (simp add: policyLoop_passes)
next
  case False
  from policyLoop_not_passes [OF this, of f] show ?thesis by blast
qed

lemma policyLoop_no_error:
  assumes "policyLoop f qs s0 = Inr s" "err s = err s0"
  shows "passes qs (policyEvents s0) (exitCodes s0) \<and> s = recordAll qs s0"
proof (cases "passes qs (policyEvents s0) (exitCodes s0)")
  case True
  with assms show ?thesis by (simp add: policyLoop_passes)
next
  case False
  from policyLoop_not_passes [OF this, of f] assms show ?thesis by auto
qed

lemma policyLoop_continue:
  assumes "policyLoop f qs s0 = Inr s" "err s = err s0"
  shows "policyLoop f (qs @ rs) s0 = policyLoop f rs s"
  using policyLoop_no_error [OF assms] by (simp add: policyLoop_append)

lemma policyLoop_err_shape:
  "\<exists>s'. policyLoop f ps s = Inr s' \<and>
     (err s' = err s \<or> (\<exists>e. e \<noteq> WildcardWithOthers \<and> err s' = multierror_Append (err s) e))"
proof (cases "passes ps (policyEvents s) (exitCodes s)")
  case True
  then show ?thesis by (simp add: policyLoop_passes)
next
  case False
  from policyLoop_not_passes [OF this, of f] show ?thesis by blast
qed

lemma finite_policyEvents_loop:
  assumes "policyLoop f ps s = Inr s'" "finite (policyEvents s)"
  shows "finite (policyEvents s')"
proof (cases "passes ps (policyEvents s) (exitCodes s)")
  case True
  with assms show ?thesis by (auto simp: policyLoop_passes policyEvents_recordAll)
next
  case False
  from policyLoop_not_passes [OF this, of f] assms(1) have
    "policyEvents s' \<subseteq> policyEvents s \<union> (\<Union>p\<in>set ps. set (citedEvents p))"
    by auto
  moreover have "finite (policyEvents s \<union> (\<Union>p\<in>set ps. set (citedEvents p)))"
    using assms(2) by simp
  ultimately show ?thesis by (rule finite_subset)
qed

lemmas name_defs =
  AnyEvent_def PodFailedEvent_def PodEvictedEvent_def JobUnknownEvent_def
  TaskCompletedEvent_def OutOfSyncEvent_def CommandIssuedEvent_def
  AbortJobAction_def RestartJobAction_def RestartTaskAction_def TerminateJobAction_def
  CompleteJobAction_def ResumeJobAction_def SyncJobAction_def EnqueueAction_def

lemmas run_defs =
  validatePolicies_def wildcardCheck_def initial_def getEventList_def removeDuplicates_def
  policyEventMap_def policyActionMap_def name_defs

lemmas spec_defs =
  wellFormedPolicies_def exactlyOneTrigger_def eventsAllowed_def
  eventActionsAllowed_def exitCodesValid_def wildcardAlone_def
  hasEvents_def citedEvents_def eventAllowed_def actionAllowed_def

lemma policyLoop_initial_shape:
  "\<exists>s. policyLoop f ps initial = Inr s \<and> finite (policyEvents s) \<and>
     (err s = None \<or> (\<exists>e. e \<noteq> WildcardWithOthers \<and> err s = Some [e]))"
proof -
  from policyLoop_err_shape [of f ps initial] obtain s where
    s: "policyLoop f ps initial = Inr s"
    "err s = None \<or> (\<exists>e. e \<noteq> WildcardWithOthers \<and> err s = Some [e])"
    by auto
  from finite_policyEvents_loop [OF s(1)] have "finite (policyEvents s)" by simp
  with s show ?thesis by blast
qed

lemma validatePolicies_first_entry:
  assumes "policyLoop f ps initial = Inr s" "err s = Some [x]"
  shows "\<exists>tl. validatePolicies ps f = Inr (Some (x # tl))"
  using assms by (simp add: validatePolicies_def wildcardCheck_def)

lemma validatePolicies_cong_loop:
  assumes "policyLoop f ps initial = policyLoop f qs initial"
  shows "validatePolicies ps f = validatePolicies qs f"
  using assms by (simp add: validatePolicies_def)

lemma validatePolicies_not_nil:
  assumes "\<not> passes ps {} {}"
  shows "\<exists>es. validatePolicies ps f = Inr (Some es)"
proof -
  from assms have "validatePolicies ps f \<noteq> Inr None"
    by (simp add: validatePolicies_nil_iff_passes)
  moreover from policyLoop_total [of f ps initial] have "\<exists>r. validatePolicies ps f = Inr r"
    by (auto simp: validatePolicies_def)
  ultimately show ?thesis by (cases "validatePolicies ps f") auto
qed

lemma exitCodes_after:
  assumes "policyLoop f qs initial = Inr s" "err s = None"
  shows "exitCodes s = (\<Union>q\<in>set qs. set_option (ExitCode q))"
    and "policyEvents s = recordedEvents qs"
proof -
  from policyLoop_no_error [OF assms(1)] assms(2) have "s = recordAll qs initial" by simp
  then show "exitCodes s = (\<Union>q\<in>set qs. set_option (ExitCode q))"
    and "policyEvents s = recordedEvents qs"
    by (simp_all add: exitCodes_recordAll policyEvents_recordAll_initial)
qed

lemma passes_exit_codes_only:
  assumes "\<forall>p\<in>set ps. Event p = '''' \<and> Events p = [] \<and> ExitCode p \<noteq> None \<and> ExitCode p \<noteq> Some 0"
    and "distinct (map ExitCode ps)"
    and "\<forall>p\<in>set ps. \<forall>c. ExitCode p = Some c \<longrightarrow> c \<notin> C"
  shows "passes ps X C \<and> recordedEvents ps = {}"
  using assms
proof (induction ps arbitrary: X C)
  case Nil
  show ?case by simp
next
  case (Cons p ps)
  from Cons.prems(1) obtain c where c: "ExitCode p = Some c" "c \<noteq> 0"
    and ev: "Event p = ''''" "Events p = []"
    by auto
  from ev have cited: "citedEvents p = []" by (simp add: citedEvents_def)
  from Cons.prems c have ok: "policyOK p X C"
    by (simp add: policyOK_def hasEvents_def cited ev)
  have "\<forall>q\<in>set ps. \<forall>d. ExitCode q = Some d \<longrightarrow> d \<notin> C \<union> set_option (ExitCode p)"
  proof (intro ballI allI impI)
    fix q d assume q: "q \<in> set ps" "ExitCode q = Some d"
    with Cons.prems(3) have "d \<notin> C" by auto
    moreover from Cons.prems(2) q c have "d \<noteq> c" by (auto simp: image_iff)
    ultimately show "d \<notin> C \<union> set_option (ExitCode p)" by (simp add: c)
  qed
  with Cons.IH [of "C \<union> set_option (ExitCode p)" "X \<union> set (citedEvents p)"] Cons.prems
  have "passes ps (X \<union> set (citedEvents p)) (C \<union> set_option (ExitCode p))
      \<and> recordedEvents ps = {}"
    by simp
  with ok cited show ?case by simp
qed

lemma remdups_snoc: "remdups (xs @ [x]) = remdups (filter (\<lambda>y. y \<noteq> x) xs) @ [x]"
  by (induction xs) auto

lemma first_occurrences_remdups: "first_occurrences xs = rev (remdups (rev xs))"
proof (induction xs rule: first_occurrences.induct)
  case 1
  show ?case by simp
next
  case (2 x xs)
  have "remdups (rev xs @ [x]) = remdups (filter (\<lambda>y. y \<noteq> x) (rev xs)) @ [x]"
    by (rule remdups_snoc)
  then have "rev (remdups (rev (x # xs))) = x # rev (remdups (rev (filter (\<lambda>y. y \<noteq> x) xs)))"
    by (simp add: rev_filter)
  with 2 show ?case by simp
qed

lemma dom_recordMounts: "dom (recordMounts vs m) = dom m \<union> MountPath ` set vs"
  by (induction vs arbitrary: m) auto

lemma validateIO_loop_Cons:
  "validateIO_loop V (v # vs) m =
     (if MountPath v = '''' then Some MountPathRequired
      else if MountPath v \<in> dom m then Some (DuplicatedMountPath (MountPath v))
      else if VolumeClaim v = None \<and> VolumeClaimName v = '''' then Some ClaimOrNameRequired
      else if VolumeClaimName v \<noteq> '''' \<and> VolumeClaim v \<noteq> None then Some ClaimConflict
      else if VolumeClaimName v \<noteq> '''' \<and> V (VolumeClaimName v) False \<noteq> []
      then Some (InvalidVolumeClaimName (VolumeClaimName v) (V (VolumeClaimName v) False))
      else validateIO_loop V vs (m(MountPath v \<mapsto> True)))"
  by (auto simp: dom_def)

declare validateIO_loop.simps(2) [simp del]

lemma validateIO_loop_step_ok:
  "MountPath v \<noteq> '''' \<Longrightarrow> MountPath v \<notin> dom m \<Longrightarrow> claimOK V v \<Longrightarrow>
   validateIO_loop V (v # vs) m = validateIO_loop V vs (m(MountPath v \<mapsto> True))"
  unfolding validateIO_loop_Cons by (auto simp: claimOK_def)

lemma validateIO_loop_step_fail:
  "\<not> (MountPath v \<noteq> '''' \<and> MountPath v \<notin> dom m \<and> claimOK V v) \<Longrightarrow>
   validateIO_loop V (v # vs) m \<noteq> None"
  unfolding validateIO_loop_Cons by (auto simp: claimOK_def)

lemma validateIO_loop_None_iff:
  "validateIO_loop V vs m = None \<longleftrightarrow>
     (\<forall>v\<in>set vs. MountPath v \<noteq> '''' \<and> MountPath v \<notin> dom m \<and> claimOK V v)
     \<and> distinct (map MountPath vs)"
proof (induction vs arbitrary: m)
  case Nil
  show ?case by simp
next
  case (Cons v vs)
  show ?case
  proof (cases "MountPath v \<noteq> '''' \<and> MountPath v \<notin> dom m \<and> claimOK V v")
    case True
    then have step: "validateIO_loop V (v # vs) m = validateIO_loop V vs (m(MountPath v \<mapsto> True))"
      by (simp add: validateIO_loop_step_ok)
    from True show ?thesis
      unfolding step Cons.IH by (auto intro: rev_image_eqI)
  next
    case False
    from validateIO_loop_step_fail [OF this, of vs] False show ?thesis
      by auto
  qed
qed

lemma validateIO_loop_append:
  "validateIO_loop V pre m = None \<Longrightarrow>
   validateIO_loop V (pre @ rest) m = validateIO_loop V rest (recordMounts pre m)"
proof (induction pre arbitrary: m)
  case Nil
  show ?case by simp
next
  case (Cons v pre)
  from Cons.prems have ok: "MountPath v \<noteq> '''' \<and> MountPath v \<notin> dom m \<and> claimOK V v"
    unfolding validateIO_loop_None_iff by simp
  then have step: "validateIO_loop V (v # xs) m = validateIO_loop V xs (m(MountPath v \<mapsto> True))"
    for xs
    by (intro validateIO_loop_step_ok) simp_all
  from Cons.prems have "validateIO_loop V pre (m(MountPath v \<mapsto> True)) = None"
    unfolding step .
  from Cons.IH [OF this] show ?case
    unfolding append_Cons step recordMounts.simps .
qed

lemma validateIO_loop_fail_append:
  "validateIO_loop V xs m = Some e \<Longrightarrow> validateIO_loop V (xs @ ys) m = Some e"
proof (induction xs arbitrary: m)
  case Nil
  then show ?case by simp
next
  case (Cons v xs)
  show ?case
  proof (cases "MountPath v \<noteq> '''' \<and> MountPath v \<notin> dom m \<and> claimOK V v")
    case True
    then have step: "validateIO_loop V (v # zs) m = validateIO_loop V zs (m(MountPath v \<mapsto> True))"
      for zs
      by (intro validateIO_loop_step_ok) simp_all
    from Cons.prems have "validateIO_loop V xs (m(MountPath v \<mapsto> True)) = Some e"
      unfolding step .
    from Cons.IH [OF this] show ?thesis
      unfolding append_Cons step .
  next
    case False
    with Cons.prems show ?thesis
      unfolding append_Cons validateIO_loop_Cons by (auto simp: claimOK_def split: if_splits)
  qed
qed

lemma validateIO_continue:
  assumes "validateIO V before = None"
  shows "validateIO V (before @ rest) = validateIO_loop V rest (recordMounts before Map.empty)"
    and "dom (recordMounts before Map.empty) = MountPath ` set before"
  using assms by (simp_all add: validateIO_def validateIO_loop_append dom_recordMounts)

text \<open>The policy lists for which validatePolicies returns nil.\<close>

lemma validatePolicies_nil_iff_wellFormed:
  "validatePolicies ps f = Inr None \<longleftrightarrow> wellFormedPolicies ps"
  unfolding validatePolicies_nil_iff_passes passes_iff wellFormedPolicies_def by simp
section \<open>The claims\<close>

text \<open>
  C1: validatePolicies is to return nil only when the action of every policy is a key of the
  action allow-list with flag true. The exit-code branch never reads the action: a policy
  with exit code 1 and the internal-only action SyncJob is accepted, although SyncJob is not
  allowed and the event branch rejects the same action with "invalid policy action".
\<close>

theorem validatePolicies_accepts_disallowed_action:
  "validatePolicies [\<lparr>Action = SyncJobAction, Event = '''', Events = [], ExitCode = Some 1\<rparr>] []
     = Inr None
   \<and> policyActionMap SyncJobAction = Some False
   \<and> validatePolicies
       [\<lparr>Action = SyncJobAction, Event = PodFailedEvent, Events = [], ExitCode = None\<rparr>] []
     = Inr (Some [InvalidPolicyAction [] SyncJobAction])"
  by (simp add: run_defs)

text \<open>
  C2: the loop over the policies always ends in some state of its variables, by exhaustion
  or by a break. Whenever the wildcard event is among the events recorded in that state and
  more than one event is recorded, validatePolicies returns the entries the loop produced
  followed by the wildcard error "if there's * here, no other policy should be here".
\<close>

theorem wildcard_check_after_loop:
  "\<exists>s. policyLoop fldPath policies initial = Inr s \<and>
     (AnyEvent \<in> policyEvents s \<and> 1 < card (policyEvents s) \<longrightarrow>
        validatePolicies policies fldPath =
          Inr (Some ((case err s of None \<Rightarrow> [] | Some es \<Rightarrow> es) @ [WildcardWithOthers])))"
proof -
  from policyLoop_total [of fldPath policies initial] obtain s where
    s: "policyLoop fldPath policies initial = Inr s" by blast
  have "multierror_Append (err s) WildcardWithOthers =
      Some ((case err s of None \<Rightarrow> [] | Some es \<Rightarrow> es) @ [WildcardWithOthers])"
    by (cases "err s") simp_all
  with s show ?thesis
    by (simp add: validatePolicies_def wildcardCheck_def)
qed

text \<open>
  The loop stops at the second policy, which sets neither an event nor an exit code; the
  first policy has recorded the wildcard and another event, and the cross-check adds its
  error to the one of the loop.
\<close>

theorem wildcard_check_after_loop_witness:
  "validatePolicies
     [\<lparr>Action = AbortJobAction, Event = '''', Events = [AnyEvent, PodFailedEvent], ExitCode = None\<rparr>,
      \<lparr>Action = AbortJobAction, Event = '''', Events = [], ExitCode = None\<rparr>,
      \<lparr>Action = AbortJobAction, Event = PodEvictedEvent, Events = [], ExitCode = None\<rparr>] []
   = Inr (Some [NoEventNoExitCode, WildcardWithOthers])"
proof -
  let ?ps = "[\<lparr>Action = AbortJobAction, Event = '''', Events = [AnyEvent, PodFailedEvent], ExitCode = None\<rparr>,
      \<lparr>Action = AbortJobAction, Event = '''', Events = [], ExitCode = None\<rparr>,
      \<lparr>Action = AbortJobAction, Event = PodEvictedEvent, Events = [], ExitCode = None\<rparr>]"
  let ?s = "\<lparr>err = Some [NoEventNoExitCode], policyEvents = {PodFailedEvent, AnyEvent}, exitCodes = {}\<rparr>"
  from wildcard_check_after_loop [of "[]" ?ps] obtain s where
    s: "policyLoop [] ?ps initial = Inr s"
    and w: "AnyEvent \<in> policyEvents s \<and> 1 < card (policyEvents s) \<longrightarrow>
        validatePolicies ?ps [] =
          Inr (Some ((case err s of None \<Rightarrow> [] | Some es \<Rightarrow> es) @ [WildcardWithOthers]))"
    by blast
  have "policyLoop [] ?ps initial = Inr ?s"
    by (simp add: run_defs)
  with s have eq: "s = ?s" by simp
  have "AnyEvent \<in> policyEvents ?s \<and> 1 < card (policyEvents ?s)"
    by (simp add: name_defs)
  with w show ?thesis unfolding eq by simp
qed

text \<open>
  C3: the loop over the policies leaves \<^verbatim>\<open>err\<close> nil or with exactly one entry, which is not
  the wildcard error; validatePolicies returns that value or that value with the wildcard
  error appended. So the result is nil or an aggregated error of one or two entries.
\<close>

theorem validatePolicies_at_most_two:
  "\<exists>s. policyLoop fldPath policies initial = Inr s
     \<and> (err s = None \<or> (\<exists>e. e \<noteq> WildcardWithOthers \<and> err s = Some [e]))
     \<and> (validatePolicies policies fldPath = Inr (err s)
          \<or> validatePolicies policies fldPath = Inr (multierror_Append (err s) WildcardWithOthers))
     \<and> (validatePolicies policies fldPath = Inr None
          \<or> (\<exists>es. validatePolicies policies fldPath = Inr (Some es)
                \<and> 1 \<le> length es \<and> length es \<le> 2))"
proof -
  from policyLoop_initial_shape [of fldPath policies] obtain s where
    s: "policyLoop fldPath policies initial = Inr s"
    and shape: "err s = None \<or> (\<exists>e. e \<noteq> WildcardWithOthers \<and> err s = Some [e])"
    by blast
  have v: "validatePolicies policies fldPath = Inr (wildcardCheck s)"
    by (simp add: validatePolicies_def s)
  have w: "wildcardCheck s = err s \<or> wildcardCheck s = multierror_Append (err s) WildcardWithOthers"
    by (simp add: wildcardCheck_def)
  from shape w have "wildcardCheck s = None
      \<or> (\<exists>es. wildcardCheck s = Some es \<and> 1 \<le> length es \<and> length es \<le> 2)"
    by auto
  with s shape v w show ?thesis by auto
qed

text \<open>
  Two entries: the loop breaks at the internal-only event OutOfSync after recording the
  wildcard and PodFailed.
\<close>

theorem validatePolicies_at_most_two_witness:
  "validatePolicies
     [\<lparr>Action = AbortJobAction, Event = '''', Events = [AnyEvent, PodFailedEvent, OutOfSyncEvent],
       ExitCode = None\<rparr>] [''spec'', ''policies'']
   = Inr (Some [InvalidPolicyEvent [''spec'', ''policies''] OutOfSyncEvent, WildcardWithOthers])
   \<and> length [InvalidPolicyEvent [''spec'', ''policies''] OutOfSyncEvent, WildcardWithOthers] \<le> 2"
  using validatePolicies_at_most_two
    [of "[''spec'', ''policies'']"
        "[\<lparr>Action = AbortJobAction, Event = '''', Events = [AnyEvent, PodFailedEvent, OutOfSyncEvent],
       ExitCode = None\<rparr>]"]
  by (simp add: run_defs)

text \<open>
  C4, as the code has it: a policy list that contains a policy with both an event
  specification and an exit code is never accepted. When no policy before that one produces
  a violation, the loop ends at it with the single entry "must not specify event and
  exitCode simultaneously", which is the first entry of the returned error, and the policies
  after it have no influence on the result.
\<close>

theorem event_and_exitCode_stops:
  assumes "(Event policy \<noteq> '''' \<or> Events policy \<noteq> []) \<and> ExitCode policy \<noteq> None"
  shows "(\<exists>es. validatePolicies (before @ policy # after) fldPath = Inr (Some es))
     \<and> (policyLoop fldPath before initial = Inr s \<and> err s = None \<longrightarrow>
          policyLoop fldPath (before @ policy # after) initial
            = Inr (s\<lparr>err := Some [EventAndExitCode]\<rparr>)
          \<and> validatePolicies (before @ policy # after) fldPath
            = validatePolicies (before @ [policy]) fldPath
          \<and> (\<exists>tl. validatePolicies (before @ policy # after) fldPath
                = Inr (Some (EventAndExitCode # tl))))"
proof -
  from assms have "\<not> exactlyOneTrigger (before @ policy # after)"
    by (auto simp: exactlyOneTrigger_def hasEvents_def)
  then have "\<not> passes (before @ policy # after) {} {}"
    by (simp add: passes_iff)
  then have nonnil: "\<exists>es. validatePolicies (before @ policy # after) fldPath = Inr (Some es)"
    by (rule validatePolicies_not_nil)
  have stop: "policyLoop fldPath (before @ policy # rest) initial
            = Inr (s\<lparr>err := Some [EventAndExitCode]\<rparr>)"
    if l: "policyLoop fldPath before initial = Inr s" and e: "err s = None" for rest
  proof -
    from l e have "policyLoop fldPath (before @ policy # rest) initial
        = policyLoop fldPath (policy # rest) s"
      by (intro policyLoop_continue) simp_all
    with assms e show ?thesis by auto
  qed
  show ?thesis
  proof (intro conjI impI nonnil)
    assume a: "policyLoop fldPath before initial = Inr s \<and> err s = None"
    then show l: "policyLoop fldPath (before @ policy # after) initial
            = Inr (s\<lparr>err := Some [EventAndExitCode]\<rparr>)"
      by (simp add: stop)
    from a show "validatePolicies (before @ policy # after) fldPath
            = validatePolicies (before @ [policy]) fldPath"
      by (intro validatePolicies_cong_loop) (simp add: stop)
    from l show "\<exists>tl. validatePolicies (before @ policy # after) fldPath
                = Inr (Some (EventAndExitCode # tl))"
      by (rule validatePolicies_first_entry) simp
  qed
qed

text \<open>
  C4 as stated speaks of every list that contains such a policy: when an earlier policy
  breaks the loop, the policy is never reached and the returned error does not mention it.
\<close>

theorem event_and_exitCode_counterexample:
  "Event \<lparr>Action = AbortJobAction, Event = PodFailedEvent, Events = [], ExitCode = Some 1\<rparr> \<noteq> ''''
   \<and> ExitCode \<lparr>Action = AbortJobAction, Event = PodFailedEvent, Events = [], ExitCode = Some 1\<rparr> \<noteq> None
   \<and> validatePolicies
       [\<lparr>Action = AbortJobAction, Event = '''', Events = [], ExitCode = None\<rparr>,
        \<lparr>Action = AbortJobAction, Event = PodFailedEvent, Events = [], ExitCode = Some 1\<rparr>] []
     = Inr (Some [NoEventNoExitCode])"
  by (simp add: run_defs)

text \<open>
  The policy with both an event and an exit code is reached after a valid policy; the policy
  after it is not examined.
\<close>

theorem event_and_exitCode_stops_witness:
  "validatePolicies
       [\<lparr>Action = AbortJobAction, Event = PodEvictedEvent, Events = [], ExitCode = None\<rparr>,
        \<lparr>Action = AbortJobAction, Event = PodFailedEvent, Events = [], ExitCode = Some 1\<rparr>,
        \<lparr>Action = AbortJobAction, Event = '''', Events = [], ExitCode = None\<rparr>] []
     = Inr (Some [EventAndExitCode])"
proof -
  let ?q = "\<lparr>Action = AbortJobAction, Event = PodEvictedEvent, Events = [], ExitCode = None\<rparr>"
  let ?p = "\<lparr>Action = AbortJobAction, Event = PodFailedEvent, Events = [], ExitCode = Some (1::int32)\<rparr>"
  let ?r = "\<lparr>Action = AbortJobAction, Event = '''', Events = [], ExitCode = None :: int32 option\<rparr>"
  let ?s = "\<lparr>err = None, policyEvents = {PodEvictedEvent}, exitCodes = {}\<rparr>"
  have h: "(Event ?p \<noteq> '''' \<or> Events ?p \<noteq> []) \<and> ExitCode ?p \<noteq> None"
    by (simp add: name_defs)
  have l: "policyLoop [] [?q] initial = Inr ?s \<and> err ?s = None"
    by (simp add: run_defs)
  from event_and_exitCode_stops [OF h, of "[?q]" "[?r]" "[]" ?s] l
  have "validatePolicies ([?q] @ ?p # [?r]) [] = validatePolicies ([?q] @ [?p]) []"
    by blast
  also have "\<dots> = Inr (Some [EventAndExitCode])"
    by (simp add: run_defs)
  finally show ?thesis by simp
qed

text \<open>
  C5: let the loop reach, without a violation so far, a policy with no event specification
  and exit code \<open>code\<close>. If \<open>code\<close> is 0 the loop ends there with "0 is not a valid error
  code"; if \<open>code\<close> is non-zero and an earlier policy has the same exit code, it ends
  there with "duplicate exitCode". In both cases this is the first entry of the returned
  error. A list of policies that each carry only a non-zero exit code, pairwise distinct,
  is accepted.
\<close>

theorem exit_code_path:
  "(Event policy = '''' \<and> Events policy = [] \<and> ExitCode policy = Some code
      \<and> policyLoop fldPath before initial = Inr s \<and> err s = None \<longrightarrow>
      (code = 0 \<longrightarrow>
         policyLoop fldPath (before @ policy # after) initial = Inr (s\<lparr>err := Some [ZeroExitCode]\<rparr>)
         \<and> (\<exists>tl. validatePolicies (before @ policy # after) fldPath
               = Inr (Some (ZeroExitCode # tl))))
      \<and> (code \<noteq> 0 \<and> (\<exists>q\<in>set before. ExitCode q = Some code) \<longrightarrow>
         policyLoop fldPath (before @ policy # after) initial
           = Inr (s\<lparr>err := Some [DuplicateExitCode code]\<rparr>)
         \<and> (\<exists>tl. validatePolicies (before @ policy # after) fldPath
               = Inr (Some (DuplicateExitCode code # tl)))))
   \<and> ((\<forall>p\<in>set policies. Event p = '''' \<and> Events p = [] \<and> ExitCode p \<noteq> None
           \<and> ExitCode p \<noteq> Some 0)
        \<and> distinct (map ExitCode policies) \<longrightarrow>
      validatePolicies policies fldPath = Inr None)"
proof (intro conjI impI)
  assume a: "Event policy = '''' \<and> Events policy = [] \<and> ExitCode policy = Some code
      \<and> policyLoop fldPath before initial = Inr s \<and> err s = None"
  then have cont: "policyLoop fldPath (before @ policy # after) initial
        = policyLoop fldPath (policy # after) s"
    by (intro policyLoop_continue) simp_all
  {
    assume z: "code = 0"
    with a cont show l: "policyLoop fldPath (before @ policy # after) initial
        = Inr (s\<lparr>err := Some [ZeroExitCode]\<rparr>)"
      by simp
    show "\<exists>tl. validatePolicies (before @ policy # after) fldPath
               = Inr (Some (ZeroExitCode # tl))"
      by (rule validatePolicies_first_entry [OF l]) simp
  }
  {
    assume d: "code \<noteq> 0 \<and> (\<exists>q\<in>set before. ExitCode q = Some code)"
    from a exitCodes_after(1) [of fldPath before s]
    have "exitCodes s = (\<Union>q\<in>set before. set_option (ExitCode q))"
      by simp
    with d have "code \<in> exitCodes s" by auto
    with a d cont show l: "policyLoop fldPath (before @ policy # after) initial
        = Inr (s\<lparr>err := Some [DuplicateExitCode code]\<rparr>)"
      by simp
    show "\<exists>tl. validatePolicies (before @ policy # after) fldPath
               = Inr (Some (DuplicateExitCode code # tl))"
      by (rule validatePolicies_first_entry [OF l]) simp
  }
next
  assume a: "(\<forall>p\<in>set policies. Event p = '''' \<and> Events p = [] \<and> ExitCode p \<noteq> None
           \<and> ExitCode p \<noteq> Some 0)
        \<and> distinct (map ExitCode policies)"
  then have "passes policies {} {} \<and> recordedEvents policies = {}"
    by (intro passes_exit_codes_only) simp_all
  then show "validatePolicies policies fldPath = Inr None"
    by (simp add: validatePolicies_nil_iff_passes wildcardAlone_def)
qed

text \<open>
  Exit code 0 after exit code 3, exit code 3 twice, and the distinct exit codes 3 and 4.
\<close>

theorem exit_code_path_witness:
  "validatePolicies
     [\<lparr>Action = AbortJobAction, Event = '''', Events = [], ExitCode = Some 3\<rparr>,
      \<lparr>Action = RestartJobAction, Event = '''', Events = [], ExitCode = Some 0\<rparr>,
      \<lparr>Action = RestartJobAction, Event = '''', Events = [], ExitCode = Some 3\<rparr>] []
     = Inr (Some [ZeroExitCode])
   \<and> validatePolicies
     [\<lparr>Action = AbortJobAction, Event = '''', Events = [], ExitCode = Some 3\<rparr>,
      \<lparr>Action = RestartJobAction, Event = '''', Events = [], ExitCode = Some 3\<rparr>,
      \<lparr>Action = RestartJobAction, Event = '''', Events = [], ExitCode = Some 0\<rparr>] []
     = Inr (Some [DuplicateExitCode 3])
   \<and> validatePolicies
     [\<lparr>Action = AbortJobAction, Event = '''', Events = [], ExitCode = Some 3\<rparr>,
      \<lparr>Action = RestartJobAction, Event = '''', Events = [], ExitCode = Some 4\<rparr>] []
     = Inr None"
proof -
  let ?a = "\<lparr>Action = AbortJobAction, Event = '''', Events = [], ExitCode = Some (3::int32)\<rparr>"
  let ?z = "\<lparr>Action = RestartJobAction, Event = '''', Events = [], ExitCode = Some (0::int32)\<rparr>"
  let ?d = "\<lparr>Action = RestartJobAction, Event = '''', Events = [], ExitCode = Some (3::int32)\<rparr>"
  let ?e = "\<lparr>Action = RestartJobAction, Event = '''', Events = [], ExitCode = Some (4::int32)\<rparr>"
  let ?s = "\<lparr>err = None, policyEvents = {}, exitCodes = {3::int32}\<rparr>"
  have l: "policyLoop [] [?a] initial = Inr ?s" by (simp add: run_defs)
  from exit_code_path [of ?z 0 "[]" "[?a]" ?s "[?d]" "[?a, ?e]"] l
  have 1: "policyLoop [] ([?a] @ ?z # [?d]) initial = Inr (?s\<lparr>err := Some [ZeroExitCode]\<rparr>)"
    and 3: "validatePolicies [?a, ?e] [] = Inr None"
    by simp_all
  from exit_code_path [of ?d 3 "[]" "[?a]" ?s "[?z]" "[]"] l
  have 2: "policyLoop [] ([?a] @ ?d # [?z]) initial = Inr (?s\<lparr>err := Some [DuplicateExitCode 3]\<rparr>)"
    by simp
  from 1 have "validatePolicies [?a, ?z, ?d] [] = Inr (Some [ZeroExitCode])"
    by (simp add: validatePolicies_def wildcardCheck_def)
  moreover from 2 have "validatePolicies [?a, ?d, ?z] [] = Inr (Some [DuplicateExitCode 3])"
    by (simp add: validatePolicies_def wildcardCheck_def)
  ultimately show ?thesis using 3 by simp
qed

text \<open>
  C6, as the code has it: let the loop reach, without a violation so far, a policy with an
  event specification and no exit code, and let the events \<open>passed\<close> of its merged list go
  through the checks. If the next event is not allowed, the loop over the policies ends with
  "invalid policy event" for it, whatever the action is; if it is allowed and the action is
  not, the loop ends with "invalid policy action". The entry is the first one of the
  returned error and the policies after this one have no influence. The internal-only events
  OutOfSync and CommandIssued are not allowed.
\<close>

theorem event_check_precedes_action_check:
  assumes "Event policy \<noteq> '''' \<or> Events policy \<noteq> []" and "ExitCode policy = None"
    and "policyLoop fldPath before initial = Inr s" and "err s = None"
    and "getEventList policy = passed @ event # rest"
    and "\<forall>e\<in>set passed. eventAllowed e \<and> e \<notin> policyEvents s"
    and "passed \<noteq> [] \<longrightarrow> actionAllowed (Action policy)"
  shows "(\<not> eventAllowed event \<longrightarrow>
            policyLoop fldPath (before @ policy # after) initial
              = Inr (s\<lparr>err := Some [InvalidPolicyEvent fldPath event],
                      policyEvents := policyEvents s \<union> set passed\<rparr>)
            \<and> (\<exists>tl. validatePolicies (before @ policy # after) fldPath
                  = Inr (Some (InvalidPolicyEvent fldPath event # tl))))
     \<and> (eventAllowed event \<and> \<not> actionAllowed (Action policy) \<longrightarrow>
            policyLoop fldPath (before @ policy # after) initial
              = Inr (s\<lparr>err := Some [InvalidPolicyAction fldPath (Action policy)],
                      policyEvents := policyEvents s \<union> set passed\<rparr>)
            \<and> (\<exists>tl. validatePolicies (before @ policy # after) fldPath
                  = Inr (Some (InvalidPolicyAction fldPath (Action policy) # tl))))
     \<and> \<not> eventAllowed OutOfSyncEvent \<and> \<not> eventAllowed CommandIssuedEvent"
proof -
  let ?s = "s\<lparr>policyEvents := policyEvents s \<union> set passed\<rparr>"
  have "distinct (getEventList policy)" by (simp add: getEventList_eq)
  with assms(5) have "distinct passed" by simp
  with assms(6,7) have "eventsPass (Action policy) passed (policyEvents s)"
    by (simp add: eventsPass_def)
  then have ev: "eventLoop fldPath (Action policy) (getEventList policy) s
      = eventLoop fldPath (Action policy) (event # rest) ?s"
    unfolding assms(5) by (rule eventLoop_append)
  from assms(3,4) have cont: "policyLoop fldPath (before @ policy # after) initial
        = policyLoop fldPath (policy # after) s"
    by (intro policyLoop_continue) simp_all
  have body: "policyLoop fldPath (policy # after) s
      = (case eventLoop fldPath (Action policy) (event # rest) ?s of
           (bFlag, s') \<Rightarrow> if bFlag then Inr s' else policyLoop fldPath after s')"
    using assms(1,2) by (auto simp: ev)
  have internal: "\<not> eventAllowed OutOfSyncEvent \<and> \<not> eventAllowed CommandIssuedEvent"
    by (simp add: eventAllowed_def policyEventMap_def name_defs)
  have 1: "policyLoop fldPath (before @ policy # after) initial
              = Inr (s\<lparr>err := Some [InvalidPolicyEvent fldPath event],
                      policyEvents := policyEvents s \<union> set passed\<rparr>)"
    if "\<not> eventAllowed event"
    using that assms(4) unfolding cont body by (simp add: eventLoop_Cons del: eventLoop.simps)
  have 2: "policyLoop fldPath (before @ policy # after) initial
              = Inr (s\<lparr>err := Some [InvalidPolicyAction fldPath (Action policy)],
                      policyEvents := policyEvents s \<union> set passed\<rparr>)"
    if "eventAllowed event \<and> \<not> actionAllowed (Action policy)"
    using that assms(4) unfolding cont body by (simp add: eventLoop_Cons del: eventLoop.simps)
  show ?thesis
  proof (intro conjI impI)
    assume a: "\<not> eventAllowed event"
    from 1 [OF a] show "policyLoop fldPath (before @ policy # after) initial
              = Inr (s\<lparr>err := Some [InvalidPolicyEvent fldPath event],
                      policyEvents := policyEvents s \<union> set passed\<rparr>)" .
    show "\<exists>tl. validatePolicies (before @ policy # after) fldPath
                  = Inr (Some (InvalidPolicyEvent fldPath event # tl))"
      by (rule validatePolicies_first_entry [OF 1 [OF a]]) simp
  next
    assume a: "eventAllowed event \<and> \<not> actionAllowed (Action policy)"
    from 2 [OF a] show "policyLoop fldPath (before @ policy # after) initial
              = Inr (s\<lparr>err := Some [InvalidPolicyAction fldPath (Action policy)],
                      policyEvents := policyEvents s \<union> set passed\<rparr>)" .
    show "\<exists>tl. validatePolicies (before @ policy # after) fldPath
                  = Inr (Some (InvalidPolicyAction fldPath (Action policy) # tl))"
      by (rule validatePolicies_first_entry [OF 2 [OF a]]) simp
  next
    from internal show "\<not> eventAllowed OutOfSyncEvent" by simp
    from internal show "\<not> eventAllowed CommandIssuedEvent" by simp
  qed
qed

text \<open>
  C6 as stated speaks of every policy that carries an event specification. A policy with the
  internal-only event OutOfSync and an exit code stops at the check for both being set, and
  a policy with that event behind a policy that sets neither is never reached: in both runs
  no "invalid policy event" is returned.
\<close>

theorem event_check_precedes_action_check_counterexample:
  "Event \<lparr>Action = AbortJobAction, Event = OutOfSyncEvent, Events = [], ExitCode = Some 1\<rparr> \<noteq> ''''
   \<and> policyEventMap OutOfSyncEvent = Some False
   \<and> validatePolicies
       [\<lparr>Action = AbortJobAction, Event = OutOfSyncEvent, Events = [], ExitCode = Some 1\<rparr>]
       [''policies'']
     = Inr (Some [EventAndExitCode])
   \<and> validatePolicies
       [\<lparr>Action = AbortJobAction, Event = '''', Events = [], ExitCode = None\<rparr>,
        \<lparr>Action = AbortJobAction, Event = OutOfSyncEvent, Events = [], ExitCode = None\<rparr>]
       [''policies'']
     = Inr (Some [NoEventNoExitCode])"
  by (simp add: run_defs)

text \<open>
  The action SyncJob is internal-only. With an allowed first event the action is reported;
  with the internal-only event OutOfSync first, the event is reported.
\<close>

theorem event_check_precedes_action_check_witness:
  "policyLoop [''policies'']
     [\<lparr>Action = SyncJobAction, Event = '''', Events = [PodFailedEvent, OutOfSyncEvent], ExitCode = None\<rparr>,
      \<lparr>Action = AbortJobAction, Event = '''', Events = [], ExitCode = Some 0\<rparr>] initial
   = Inr \<lparr>err = Some [InvalidPolicyAction [''policies''] SyncJobAction],
          policyEvents = {}, exitCodes = {}\<rparr>
   \<and> policyLoop [''policies'']
     [\<lparr>Action = SyncJobAction, Event = '''', Events = [OutOfSyncEvent, PodFailedEvent], ExitCode = None\<rparr>,
      \<lparr>Action = AbortJobAction, Event = '''', Events = [], ExitCode = Some 0\<rparr>] initial
   = Inr \<lparr>err = Some [InvalidPolicyEvent [''policies''] OutOfSyncEvent],
          policyEvents = {}, exitCodes = {}\<rparr>"
proof -
  let ?p = "\<lparr>Action = SyncJobAction, Event = '''', Events = [PodFailedEvent, OutOfSyncEvent],
              ExitCode = None :: int32 option\<rparr>"
  let ?q = "\<lparr>Action = SyncJobAction, Event = '''', Events = [OutOfSyncEvent, PodFailedEvent],
              ExitCode = None :: int32 option\<rparr>"
  let ?r = "\<lparr>Action = AbortJobAction, Event = '''', Events = [], ExitCode = Some (0::int32)\<rparr>"
  have l: "policyLoop [''policies''] [] initial = Inr initial" "err initial = None"
    by (simp_all add: initial_def)
  have gp: "getEventList ?p = [] @ PodFailedEvent # [OutOfSyncEvent]"
    and gq: "getEventList ?q = [] @ OutOfSyncEvent # [PodFailedEvent]"
    by (simp_all add: run_defs)
  have facts: "eventAllowed PodFailedEvent" "\<not> actionAllowed SyncJobAction"
    "\<not> eventAllowed OutOfSyncEvent"
    by (simp_all add: eventAllowed_def actionAllowed_def policyEventMap_def policyActionMap_def
        name_defs)
  from event_check_precedes_action_check [OF _ _ l gp, of "[?r]"] facts
  have "policyLoop [''policies''] ([] @ ?p # [?r]) initial
      = Inr (initial\<lparr>err := Some [InvalidPolicyAction [''policies''] (Action ?p)],
                      policyEvents := policyEvents initial \<union> set []\<rparr>)"
    by simp
  moreover
  from event_check_precedes_action_check [OF _ _ l gq, of "[?r]"] facts
  have "policyLoop [''policies''] ([] @ ?q # [?r]) initial
      = Inr (initial\<lparr>err := Some [InvalidPolicyEvent [''policies''] OutOfSyncEvent],
                      policyEvents := policyEvents initial \<union> set []\<rparr>)"
    by simp
  ultimately show ?thesis by (simp add: initial_def)
qed

text \<open>
  C7: getEventList returns the entries of \<^verbatim>\<open>Events\<close> followed by \<^verbatim>\<open>Event\<close> when that is
  non-empty, with duplicates removed, the first occurrence kept and the order preserved. The
  result has no duplicates and the same elements as the input. \<^verbatim>\<open>Events\<close> ["A", "B"] with
  \<^verbatim>\<open>Event\<close> "B" gives ["A", "B"].
\<close>

theorem getEventList_merges_and_dedups:
  "getEventList policy
     = first_occurrences (Events policy @ (if Event policy = '''' then [] else [Event policy]))
   \<and> getEventList policy
     = rev (remdups (rev (Events policy @ (if Event policy = '''' then [] else [Event policy]))))
   \<and> distinct (getEventList policy)
   \<and> set (getEventList policy)
     = set (Events policy) \<union> (if Event policy = '''' then {} else {Event policy})
   \<and> getEventList \<lparr>Action = a, Event = ''B'', Events = [''A'', ''B''], ExitCode = c\<rparr>
     = [''A'', ''B'']"
proof -
  have eq: "getEventList policy
     = first_occurrences (Events policy @ (if Event policy = '''' then [] else [Event policy]))"
    by (simp add: getEventList_eq citedEvents_def)
  moreover have "getEventList \<lparr>Action = a, Event = ''B'', Events = [''A'', ''B''], ExitCode = c\<rparr>
     = [''A'', ''B'']"
    by (simp add: getEventList_def removeDuplicates_def)
  moreover have "set (getEventList policy)
     = set (Events policy) \<union> (if Event policy = '''' then {} else {Event policy})"
    by (simp add: citedEvents_def)
  moreover have "distinct (getEventList policy)"
    by (simp add: getEventList_eq)
  ultimately show ?thesis
    by (simp add: first_occurrences_remdups)
qed

text \<open>
  A list with a repeated entry and a single event that is already in the list.
\<close>

theorem getEventList_merges_and_dedups_witness:
  "getEventList \<lparr>Action = AbortJobAction, Event = ''C'',
                 Events = [''A'', ''C'', ''A'', ''B''], ExitCode = None\<rparr>
     = [''A'', ''C'', ''B'']"
  using getEventList_merges_and_dedups
    [of "\<lparr>Action = AbortJobAction, Event = ''C'',
                 Events = [''A'', ''C'', ''A'', ''B''], ExitCode = None\<rparr>"]
  by simp

text \<open>
  C8: validateIO returns nil exactly for the valid volume lists. When the volumes before
  a volume are valid, an empty mount path gives "mountPath is required", whatever else the
  volume sets, and a non-empty mount path that one of the earlier volumes has gives
  "duplicated mountPath" with that path. An error, once returned for a list, is returned
  for every extension of the list: no later volume is examined.
\<close>

theorem validateIO_first_violation:
  "(validateIO V volumes = None \<longleftrightarrow> volumesValid V volumes)
   \<and> (validateIO V before = None \<longrightarrow>
        (MountPath volume = '''' \<longrightarrow>
           validateIO V (before @ volume # after) = Some MountPathRequired)
        \<and> (MountPath volume \<noteq> '''' \<and> MountPath volume \<in> MountPath ` set before \<longrightarrow>
           validateIO V (before @ volume # after)
             = Some (DuplicatedMountPath (MountPath volume))))
   \<and> (validateIO V before = Some e \<longrightarrow> validateIO V (before @ after) = Some e)"
proof (intro conjI impI)
  show "validateIO V volumes = None \<longleftrightarrow> volumesValid V volumes"
    by (simp add: validateIO_def validateIO_loop_None_iff volumesValid_def)
next
  assume a: "validateIO V before = None"
  {
    assume "MountPath volume = ''''"
    then show "validateIO V (before @ volume # after) = Some MountPathRequired"
      unfolding validateIO_continue(1) [OF a] validateIO_loop_Cons by simp
  }
  {
    assume "MountPath volume \<noteq> '''' \<and> MountPath volume \<in> MountPath ` set before"
    then show "validateIO V (before @ volume # after)
             = Some (DuplicatedMountPath (MountPath volume))"
      unfolding validateIO_continue(1) [OF a] validateIO_loop_Cons validateIO_continue(2) [OF a]
      by simp
  }
next
  assume "validateIO V before = Some e"
  then show "validateIO V (before @ after) = Some e"
    by (simp add: validateIO_def validateIO_loop_fail_append)
qed

text \<open>
  Two volumes share the mount path /data; a volume with an inline claim and no mount path.
\<close>

theorem validateIO_first_violation_witness:
  "validateIO (\<lambda>name prefix. [])
     [\<lparr>MountPath = ''/data'', VolumeClaimName = ''pvc'', VolumeClaim = None :: unit option\<rparr>] = None
   \<and> validateIO (\<lambda>name prefix. [])
     [\<lparr>MountPath = ''/data'', VolumeClaimName = ''pvc'', VolumeClaim = None :: unit option\<rparr>,
      \<lparr>MountPath = ''/data'', VolumeClaimName = '''', VolumeClaim = Some ()\<rparr>,
      \<lparr>MountPath = '''', VolumeClaimName = '''', VolumeClaim = None\<rparr>]
     = Some (DuplicatedMountPath ''/data'')
   \<and> validateIO (\<lambda>name prefix. [])
     [\<lparr>MountPath = ''/data'', VolumeClaimName = ''pvc'', VolumeClaim = None :: unit option\<rparr>,
      \<lparr>MountPath = '''', VolumeClaimName = '''', VolumeClaim = None\<rparr>,
      \<lparr>MountPath = ''/data'', VolumeClaimName = '''', VolumeClaim = Some ()\<rparr>]
     = Some MountPathRequired"
proof -
  let ?V = "\<lambda>(name :: string) (prefix :: bool). [] :: string list"
  let ?a = "\<lparr>MountPath = ''/data'', VolumeClaimName = ''pvc'', VolumeClaim = None :: unit option\<rparr>"
  let ?b = "\<lparr>MountPath = ''/data'', VolumeClaimName = '''', VolumeClaim = Some ()\<rparr>"
  let ?c = "\<lparr>MountPath = '''', VolumeClaimName = '''', VolumeClaim = None :: unit option\<rparr>"
  have valid: "volumesValid ?V [?a]"
    by (simp add: volumesValid_def claimOK_def)
  with validateIO_first_violation [of ?V "[?a]"] have a: "validateIO ?V [?a] = None"
    by blast
  from validateIO_first_violation [of ?V "[?a]" "[?a]" ?b "[?c]"] a
  have "validateIO ?V ([?a] @ ?b # [?c]) = Some (DuplicatedMountPath (MountPath ?b))"
    by simp
  moreover
  from validateIO_first_violation [of ?V "[?a]" "[?a]" ?c "[?b]"] a
  have "validateIO ?V ([?a] @ ?c # [?b]) = Some MountPathRequired"
    by simp
  ultimately show ?thesis using a by simp
qed

text \<open>
  C9: when the volumes before a volume are valid and its mount path is non-empty and new,
  validateIO returns "either VolumeClaim or VolumeClaimName must be specified" if neither
  is set, the conflict error if both are set, and "invalid VolumeClaimName" with the name
  and the messages of the name check if only the name is set and the check returns a
  message. A volume with exactly one of the two, whose name passes, is accepted.
\<close>

theorem validateIO_claim_rules:
  "validateIO V before = None \<and> MountPath volume \<noteq> ''''
     \<and> MountPath volume \<notin> MountPath ` set before \<longrightarrow>
     (VolumeClaim volume = None \<and> VolumeClaimName volume = '''' \<longrightarrow>
        validateIO V (before @ volume # after) = Some ClaimOrNameRequired)
     \<and> (VolumeClaim volume \<noteq> None \<and> VolumeClaimName volume \<noteq> '''' \<longrightarrow>
        validateIO V (before @ volume # after) = Some ClaimConflict)
     \<and> (VolumeClaim volume = None \<and> VolumeClaimName volume \<noteq> ''''
          \<and> V (VolumeClaimName volume) False \<noteq> [] \<longrightarrow>
        validateIO V (before @ volume # after)
          = Some (InvalidVolumeClaimName (VolumeClaimName volume)
                    (V (VolumeClaimName volume) False)))
     \<and> (claimOK V volume \<longrightarrow> validateIO V (before @ [volume]) = None)"
proof (intro impI)
  assume a: "validateIO V before = None \<and> MountPath volume \<noteq> ''''
     \<and> MountPath volume \<notin> MountPath ` set before"
  then have b: "validateIO V before = None" by simp
  have eq: "validateIO V (before @ volume # rest)
      = validateIO_loop V (volume # rest) (recordMounts before Map.empty)" for rest
    by (rule validateIO_continue(1) [OF b])
  from a have fresh: "MountPath volume \<notin> dom (recordMounts before Map.empty)"
    by (simp add: validateIO_continue(2) [OF b])
  from a fresh show "(VolumeClaim volume = None \<and> VolumeClaimName volume = '''' \<longrightarrow>
        validateIO V (before @ volume # after) = Some ClaimOrNameRequired)
     \<and> (VolumeClaim volume \<noteq> None \<and> VolumeClaimName volume \<noteq> '''' \<longrightarrow>
        validateIO V (before @ volume # after) = Some ClaimConflict)
     \<and> (VolumeClaim volume = None \<and> VolumeClaimName volume \<noteq> ''''
          \<and> V (VolumeClaimName volume) False \<noteq> [] \<longrightarrow>
        validateIO V (before @ volume # after)
          = Some (InvalidVolumeClaimName (VolumeClaimName volume)
                    (V (VolumeClaimName volume) False)))
     \<and> (claimOK V volume \<longrightarrow> validateIO V (before @ [volume]) = None)"
    unfolding eq validateIO_loop_Cons by (auto simp: claimOK_def)
qed

text \<open>
  A name check that rejects one name; the three errors after a valid first volume.
\<close>

theorem validateIO_claim_rules_witness:
  "validateIO (\<lambda>name prefix. if name = ''Bad_Name'' then [''not a DNS-1123 subdomain''] else [])
     [\<lparr>MountPath = ''/data'', VolumeClaimName = ''pvc'', VolumeClaim = None :: unit option\<rparr>,
      \<lparr>MountPath = ''/log'', VolumeClaimName = '''', VolumeClaim = None\<rparr>]
     = Some ClaimOrNameRequired
   \<and> validateIO (\<lambda>name prefix. if name = ''Bad_Name'' then [''not a DNS-1123 subdomain''] else [])
     [\<lparr>MountPath = ''/data'', VolumeClaimName = ''pvc'', VolumeClaim = None :: unit option\<rparr>,
      \<lparr>MountPath = ''/log'', VolumeClaimName = ''pvc'', VolumeClaim = Some ()\<rparr>]
     = Some ClaimConflict
   \<and> validateIO (\<lambda>name prefix. if name = ''Bad_Name'' then [''not a DNS-1123 subdomain''] else [])
     [\<lparr>MountPath = ''/data'', VolumeClaimName = ''pvc'', VolumeClaim = None :: unit option\<rparr>,
      \<lparr>MountPath = ''/log'', VolumeClaimName = ''Bad_Name'', VolumeClaim = None\<rparr>]
     = Some (InvalidVolumeClaimName ''Bad_Name'' [''not a DNS-1123 subdomain''])"
proof -
  let ?V = "\<lambda>(name :: string) (prefix :: bool).
      if name = ''Bad_Name'' then [''not a DNS-1123 subdomain''] else []"
  let ?a = "\<lparr>MountPath = ''/data'', VolumeClaimName = ''pvc'', VolumeClaim = None :: unit option\<rparr>"
  let ?n = "\<lparr>MountPath = ''/log'', VolumeClaimName = '''', VolumeClaim = None :: unit option\<rparr>"
  let ?b = "\<lparr>MountPath = ''/log'', VolumeClaimName = ''pvc'', VolumeClaim = Some ()\<rparr>"
  let ?i = "\<lparr>MountPath = ''/log'', VolumeClaimName = ''Bad_Name'', VolumeClaim = None :: unit option\<rparr>"
  have a: "validateIO ?V [?a] = None"
    by (simp add: validateIO_def validateIO_loop.simps)
  from validateIO_claim_rules [of ?V "[?a]" ?n "[]"] a
  have "validateIO ?V ([?a] @ ?n # []) = Some ClaimOrNameRequired" by simp
  moreover
  from validateIO_claim_rules [of ?V "[?a]" ?b "[]"] a
  have "validateIO ?V ([?a] @ ?b # []) = Some ClaimConflict" by simp
  moreover
  from validateIO_claim_rules [of ?V "[?a]" ?i "[]"] a
  have "validateIO ?V ([?a] @ ?i # [])
      = Some (InvalidVolumeClaimName (VolumeClaimName ?i) (?V (VolumeClaimName ?i) False))"
    by simp
  ultimately show ?thesis by simp
qed

text \<open>
  C10: the loop over the policies never panics, from any state of its variables, and so
  validatePolicies never does: the dereference of \<^verbatim>\<open>policy.ExitCode\<close> is only reached with a
  non-nil pointer. A policy with no event, no event list and a nil exit code ends the loop at
  the check before, with "either event and exitCode should be specified".
\<close>

theorem exit_code_dereference_safe:
  "(\<exists>s'. policyLoop fldPath policies s = Inr s')
   \<and> (\<exists>r. validatePolicies policies fldPath = Inr r)
   \<and> (Event policy = '''' \<and> Events policy = [] \<and> ExitCode policy = None \<longrightarrow>
        policyLoop fldPath (policy # policies) s
          = Inr (s\<lparr>err := multierror_Append (err s) NoEventNoExitCode\<rparr>))"
proof -
  from policyLoop_total [of fldPath policies initial] obtain s0 where
    "policyLoop fldPath policies initial = Inr s0" by blast
  then have "\<exists>r. validatePolicies policies fldPath = Inr r"
    by (simp add: validatePolicies_def)
  with policyLoop_total [of fldPath policies s] show ?thesis
    by simp
qed

text \<open>
  A policy with a nil exit code and no event.
\<close>

theorem exit_code_dereference_safe_witness:
  "policyLoop [] [\<lparr>Action = AbortJobAction, Event = '''', Events = [], ExitCode = None\<rparr>] initial
     = Inr (initial\<lparr>err := Some [NoEventNoExitCode]\<rparr>)
   \<and> validatePolicies [\<lparr>Action = AbortJobAction, Event = '''', Events = [], ExitCode = None\<rparr>] []
     \<noteq> Inl NilPointerDereference"
  using exit_code_dereference_safe
    [of "[]" "[]" initial "\<lparr>Action = AbortJobAction, Event = '''', Events = [], ExitCode = None\<rparr>"]
  by (simp add: run_defs)

end
